theory Spec2Isabelle
  imports Main
begin

section \<open>Python string primitives used by the driver\<close>

text \<open>
  \<^verbatim>\<open>s.split(c)\<close> for a one-character separator: the fragments between the occurrences
  of the separator, empty fragments included; the result is never the empty list
  (\<^verbatim>\<open>"".split(".")\<close> is \<^verbatim>\<open>[""]\<close>). The separators of the source are the ASCII
  characters newline and period, so splitting the byte string and splitting the
  code-point string cut at the same places.
\<close>

fun str_split :: "char \<Rightarrow> string \<Rightarrow> string list" where
  "str_split c [] = [[]]"
| "str_split c (x # xs) =
     (if x = c then [] # str_split c xs
      else (case str_split c xs of [] \<Rightarrow> [[x]] | w # ws \<Rightarrow> (x # w) # ws))"

text \<open>\<^verbatim>\<open>sep.join(xs)\<close>.\<close>

fun str_join :: "string \<Rightarrow> string list \<Rightarrow> string" where
  "str_join sep [] = []"
| "str_join sep [x] = x"
| "str_join sep (x # y # ys) = x @ sep @ str_join sep (y # ys)"

definition newline :: char where
  "newline = CHR 0x0A"

definition period :: char where
  "period = CHR ''.''"

section \<open>The model handle and one model call\<close>

text \<open>
  The exceptions the driver can meet. \<^verbatim>\<open>except IndexError\<close> catches \<open>IndexError\<close> only;
  \<open>KeyError\<close> and every other exception are not instances of it.
\<close>

datatype py_error = IndexError | KeyError | OtherError string

text \<open>
  The handle is a callable from a text to a list of dictionaries, or it raises. It is
  deterministic and keeps no state between calls. A dictionary is an association list
  from keys to texts.
\<close>

type_synonym model_output = "(string \<times> string) list list"
type_synonym model = "string \<Rightarrow> py_error + model_output"

text \<open>
  One model call of the driver, the two statements
  \<^verbatim>\<open>output = model(x, return_tensors=False, clean_up_tokenization_spaces=True)\<close> and
  \<^verbatim>\<open>output[0]['summary_text']\<close>: the call may raise, \<^verbatim>\<open>output[0]\<close> raises
  \<open>IndexError\<close> on an empty list and the lookup raises \<open>KeyError\<close> on a missing key.
\<close>

definition model_call :: "model \<Rightarrow> string \<Rightarrow> py_error + string" where
  "model_call m x =
     (case m x of
        Inl e \<Rightarrow> Inl e
      | Inr out \<Rightarrow>
          (case out of
             [] \<Rightarrow> Inl IndexError
           | d # _ \<Rightarrow>
               (case map_of d ''summary_text'' of
                  None \<Rightarrow> Inl KeyError
                | Some s \<Rightarrow> Inr s)))"

section \<open>The driver \<^verbatim>\<open>abstractive_summary\<close>\<close>

text \<open>
  Every function of the driver returns, beside its result, the list of the texts it has
  submitted to the model, in call order. \<open>None\<close> is a run that never returns.
\<close>

type_synonym 'a traced = "((py_error + 'a) \<times> string list) option"

text \<open>
  The loop \<^verbatim>\<open>while sentences:\<close> of the sentence-chunk fallback. An exception raised in
  its body is raised inside an \<^verbatim>\<open>except\<close> clause, so no handler of the function catches
  it.
\<close>

partial_function (option) sentence_loop ::
  "model \<Rightarrow> nat \<Rightarrow> string list \<Rightarrow> string list \<Rightarrow> string list \<Rightarrow> (string list) traced"
where
  "sentence_loop m segment_size sentences summary calls =
     (if sentences = [] then Some (Inr summary, calls)
      else
        (case model_call m (str_join ''. '' (take segment_size sentences)) of
           Inl e \<Rightarrow> Some (Inl e, calls @ [str_join ''. '' (take segment_size sentences)])
         | Inr s \<Rightarrow>
             sentence_loop m segment_size (drop segment_size sentences) (summary @ [s])
               (calls @ [str_join ''. '' (take segment_size sentences)])))"

text \<open>
  The handler of the inner \<^verbatim>\<open>try\<close>: split the paragraph on the period, two chunks,
  \<^verbatim>\<open>segment_size = int(len(sentences)/chunks)\<close>, then the loop. The quotient of the
  length by 2 is exact in floating point for every length a list can have, so the
  truncation is the integer quotient.
\<close>

definition chunks :: nat where
  "chunks = 2"

definition split_further ::
  "model \<Rightarrow> string \<Rightarrow> string list \<Rightarrow> string list \<Rightarrow> (string list) traced" where
  "split_further m paragraph summary calls =
     sentence_loop m (length (str_split period paragraph) div chunks)
       (str_split period paragraph) summary calls"

text \<open>The loop \<^verbatim>\<open>for paragraph in paragraphs:\<close> with its \<^verbatim>\<open>try\<close>.\<close>

fun paragraph_loop ::
  "model \<Rightarrow> string list \<Rightarrow> string list \<Rightarrow> string list \<Rightarrow> (string list) traced" where
  "paragraph_loop m [] summary calls = Some (Inr summary, calls)"
| "paragraph_loop m (paragraph # paragraphs) summary calls =
     (case model_call m paragraph of
        Inr s \<Rightarrow> paragraph_loop m paragraphs (summary @ [s]) (calls @ [paragraph])
      | Inl IndexError \<Rightarrow>
          (case split_further m paragraph summary (calls @ [paragraph]) of
             None \<Rightarrow> None
           | Some (Inl e, calls') \<Rightarrow> Some (Inl e, calls')
           | Some (Inr summary', calls') \<Rightarrow> paragraph_loop m paragraphs summary' calls')
      | Inl e \<Rightarrow> Some (Inl e, calls @ [paragraph]))"

text \<open>\<^verbatim>\<open>paragraphs = text.split("\n")\<close>, then \<^verbatim>\<open>[p for p in paragraphs if p]\<close>.\<close>

definition paragraphs_of :: "string \<Rightarrow> string list" where
  "paragraphs_of text = filter (\<lambda>p. p \<noteq> []) (str_split newline text)"

definition abstractive_summary :: "string \<Rightarrow> model \<Rightarrow> string traced" where
  "abstractive_summary text m =
     (case model_call m text of
        Inr s \<Rightarrow> Some (Inr s, [text])
      | Inl IndexError \<Rightarrow>
          (case paragraph_loop m (paragraphs_of text) [] [text] of
             None \<Rightarrow> None
           | Some (Inl e, calls) \<Rightarrow> Some (Inl e, calls)
           | Some (Inr summary, calls) \<Rightarrow> Some (Inr (str_join [newline] summary), calls))
      | Inl e \<Rightarrow> Some (Inl e, [text]))"

section \<open>The adapter \<^verbatim>\<open>SummarizationModel\<close>\<close>

text \<open>
  The five \<^verbatim>\<open>attr.ib()\<close> fields of the class, in declaration order. \<open>load\<close> and
  \<open>summarize\<close> hold uncalled function objects, which Python compares by identity: they are
  references of an arbitrary type, compared by equality of the references.
\<close>

record ('l, 's) SummarizationModel =
  name :: string
  load :: 'l
  summarize :: 's
  display_name :: string
  description :: string

text \<open>
  The method written in the class body, \<^verbatim>\<open>def __hash__(self): return self.name\<close>. Its
  result is the name, a \<^verbatim>\<open>str\<close>, not an \<^verbatim>\<open>int\<close>.
\<close>

datatype py_value = PyInt int | PyStr string

definition SummarizationModel_hash :: "('l, 's) SummarizationModel \<Rightarrow> py_value" where
  "SummarizationModel_hash self = PyStr (name self)"

text \<open>
  The class is decorated with \<^verbatim>\<open>@attr.s()\<close>, which decides what the attribute
  \<^verbatim>\<open>__hash__\<close> of the class is after decoration, from its arguments \<^verbatim>\<open>eq\<close>, \<^verbatim>\<open>hash\<close>,
  \<^verbatim>\<open>frozen\<close> and \<^verbatim>\<open>auto_detect\<close>: it keeps what the class has, it generates a hash of the
  tuple of the fields, or it sets \<^verbatim>\<open>__hash__ = None\<close>, which makes the instances
  unhashable. Only with \<^verbatim>\<open>auto_detect\<close> does a \<^verbatim>\<open>__hash__\<close> written in the class body count
  as \<^verbatim>\<open>hash=False\<close>. Called with no arguments, as here, the decorator has \<^verbatim>\<open>eq\<close> true,
  \<^verbatim>\<open>hash\<close> unset, \<^verbatim>\<open>frozen\<close> false and \<^verbatim>\<open>auto_detect\<close> false.
\<close>

record attr_s_arguments =
  arg_eq :: bool
  arg_hash :: "bool option"
  arg_frozen :: bool
  arg_auto_detect :: bool

definition attr_s_defaults :: attr_s_arguments where
  "attr_s_defaults =
     \<lparr>arg_eq = True, arg_hash = None, arg_frozen = False, arg_auto_detect = False\<rparr>"

datatype hash_slot = Kept | Generated | Unhashable

definition attr_s_hash_slot :: "attr_s_arguments \<Rightarrow> bool \<Rightarrow> hash_slot" where
  "attr_s_hash_slot args has_own_hash =
     (let h = (if arg_hash args = None \<and> arg_auto_detect args \<and> has_own_hash
               then Some False else arg_hash args)
      in if h = Some False \<or> (h = None \<and> arg_eq args = False) then Kept
         else if h = Some True \<or> (h = None \<and> arg_eq args \<and> arg_frozen args) then Generated
         else Unhashable)"

text \<open>
  The builtin \<^verbatim>\<open>hash(x)\<close> on a value whose \<^verbatim>\<open>__hash__\<close> returned \<open>v\<close>: it accepts an
  \<^verbatim>\<open>int\<close> and raises \<^verbatim>\<open>TypeError\<close> on anything else.
\<close>

definition hash_protocol :: "py_value \<Rightarrow> py_error + int" where
  "hash_protocol v =
     (case v of PyInt i \<Rightarrow> Inr i | PyStr s \<Rightarrow> Inl (OtherError ''TypeError''))"

text \<open>
  \<^verbatim>\<open>hash(self)\<close> for an adapter: the class has a \<^verbatim>\<open>__hash__\<close> of its own and is decorated
  with \<^verbatim>\<open>@attr.s()\<close>. On an unhashable class it raises \<^verbatim>\<open>TypeError\<close>. The hash of a
  tuple of fields is the parameter \<open>tuple_hash\<close>.
\<close>

definition py_hash ::
  "(string \<times> 'l \<times> 's \<times> string \<times> string \<Rightarrow> int) \<Rightarrow> ('l, 's) SummarizationModel \<Rightarrow>
   py_error + int" where
  "py_hash tuple_hash self =
     (case attr_s_hash_slot attr_s_defaults True of
        Kept \<Rightarrow> hash_protocol (SummarizationModel_hash self)
      | Generated \<Rightarrow>
          Inr (tuple_hash
                 (name self, load self, summarize self, display_name self, description self))
      | Unhashable \<Rightarrow> Inl (OtherError ''TypeError''))"

text \<open>
  The comparison that the decorator \<^verbatim>\<open>@attr.s()\<close> gives the class (its default
  \<^verbatim>\<open>eq=True\<close>): two instances of the class are equal when the tuples of their fields, in
  declaration order, are equal.
\<close>

definition SummarizationModel_eq ::
  "('l, 's) SummarizationModel \<Rightarrow> ('l, 's) SummarizationModel \<Rightarrow> bool" where
  "SummarizationModel_eq self other \<longleftrightarrow>
     (name self, load self, summarize self, display_name self, description self) =
     (name other, load other, summarize other, display_name other, description other)"

section \<open>Auxiliary notions for the statements\<close>

text \<open>
  A sample handle with a budget of \<open>n\<close> characters: within the budget it returns its input
  as the summary, beyond it the length-exceeded signal.
\<close>

definition budget_model :: "nat \<Rightarrow> model" where
  "budget_model n x =
     (if length x \<le> n then Inr [[(''summary_text'', x)]] else Inl IndexError)"

text \<open>
  A handle that raises the same exception on every text, and one that returns the same
  summary for every text.
\<close>

definition raising_model :: "py_error \<Rightarrow> model" where
  "raising_model e x = Inl e"

definition constant_model :: "string \<Rightarrow> model" where
  "constant_model s x = Inr [[(''summary_text'', s)]]"

text \<open>
  The successive slices \<^verbatim>\<open>sentences[:segment_size]\<close> that the sentence loop takes when
  the segment size is positive.
\<close>

function segments :: "nat \<Rightarrow> 'a list \<Rightarrow> 'a list list" where
  "segments k xs = (if k = 0 \<or> xs = [] then [] else take k xs # segments k (drop k xs))"
  by pat_completeness auto
termination
  by (relation "measure (\<lambda>(k, xs). length xs)") auto

declare segments.simps [simp del]

text \<open>
  A call that returns or raises \<open>IndexError\<close>, the one exception that the handlers of the
  driver catch.
\<close>

definition handled :: "model \<Rightarrow> string \<Rightarrow> bool" where
  "handled m x = (case model_call m x of Inr s \<Rightarrow> True | Inl e \<Rightarrow> e = IndexError)"

text \<open>
  A call trace fitting an outcome: when the run returned a value, every call of the trace
  was handled; when it raised \<open>e\<close>, the last call raised \<open>e\<close> and the calls before it
  were handled.
\<close>

definition trace_ok :: "model \<Rightarrow> py_error + 'a \<Rightarrow> string list \<Rightarrow> bool" where
  "trace_ok m r calls =
     (case r of
        Inr v \<Rightarrow> list_all (handled m) calls
      | Inl e \<Rightarrow>
          calls \<noteq> [] \<and> list_all (handled m) (butlast calls) \<and> model_call m (last calls) = Inl e)"


section \<open>Facts about the string primitives\<close>

lemma str_split_not_Nil: "str_split c s \<noteq> []"
  by (induction s) (auto split: list.splits)

lemma length_str_split: "length (str_split c s) = Suc (count_list s c)"
  by (induction s) (auto split: list.splits simp: str_split_not_Nil)

lemma str_join_str_split: "str_join [c] (str_split c s) = s"
proof (induction s)
  case Nil
  then show ?case by simp
next
  case (Cons x xs)
  show ?case
  proof (cases "x = c")
    case True
    then show ?thesis using Cons
      by (cases "str_split c xs") (simp_all add: str_split_not_Nil)
  next
    case False
    then show ?thesis using Cons
      by (cases "str_split c xs"; cases "tl (str_split c xs)") auto
  qed
qed

lemma str_split_trailing: "str_split c (s @ [c]) = str_split c s @ [[]]"
  by (induction s) (auto split: list.splits simp: str_split_not_Nil)

lemma paragraphs_of_nonempty: "[] \<notin> set (paragraphs_of text)"
  by (simp add: paragraphs_of_def)

lemma segment_size_pos: "c \<in> set p \<Longrightarrow> 0 < length (str_split c p) div 2"
proof -
  assume "c \<in> set p"
  then have "count_list p c \<noteq> 0" by (simp add: count_list_0_iff)
  then show ?thesis by (simp add: length_str_split)
qed

text \<open>The slices of a list, put together again, are the list.\<close>

lemma segments_Nil: "segments k [] = []"
  by (simp add: segments.simps)

lemma segments_unfold:
  "0 < k \<Longrightarrow> xs \<noteq> [] \<Longrightarrow> segments k xs = take k xs # segments k (drop k xs)"
  by (subst segments.simps) simp

lemma concat_segments: "0 < k \<Longrightarrow> concat (segments k xs) = xs"
proof (induction k xs rule: segments.induct)
  case (1 k xs)
  then show ?case by (subst segments.simps) auto
qed

lemma segments_eval [simp]:
  "segments k [] = []"
  "0 < k \<Longrightarrow> segments k (x # xs) = take k (x # xs) # segments k (drop k (x # xs))"
  by (simp_all add: segments_Nil segments_unfold)

section \<open>The sentence loop\<close>

lemma sentence_loop_Nil: "sentence_loop m k [] summary calls = Some (Inr summary, calls)"
  by (simp add: sentence_loop.simps)

lemma sentence_loop_unfold:
  "sentences \<noteq> [] \<Longrightarrow>
   sentence_loop m k sentences summary calls =
     (case model_call m (str_join ''. '' (take k sentences)) of
        Inl e \<Rightarrow> Some (Inl e, calls @ [str_join ''. '' (take k sentences)])
      | Inr s \<Rightarrow>
          sentence_loop m k (drop k sentences) (summary @ [s])
            (calls @ [str_join ''. '' (take k sentences)]))"
  by (subst sentence_loop.simps) simp

lemma sentence_loop_raise:
  "sentences \<noteq> [] \<Longrightarrow> model_call m (str_join ''. '' (take k sentences)) = Inl e \<Longrightarrow>
   sentence_loop m k sentences summary calls =
     Some (Inl e, calls @ [str_join ''. '' (take k sentences)])"
  by (simp add: sentence_loop_unfold)

lemma sentence_loop_step:
  "sentences \<noteq> [] \<Longrightarrow> model_call m (str_join ''. '' (take k sentences)) = Inr s \<Longrightarrow>
   sentence_loop m k sentences summary calls =
     sentence_loop m k (drop k sentences) (summary @ [s])
       (calls @ [str_join ''. '' (take k sentences)])"
  by (simp add: sentence_loop_unfold)

text \<open>With a positive segment size the loop returns: each round shortens the list.\<close>

lemma sentence_loop_total:
  "0 < k \<Longrightarrow> \<exists>r. sentence_loop m k sentences summary calls = Some r"
proof (induction "length sentences" arbitrary: sentences summary calls rule: less_induct)
  case less
  show ?case
  proof (cases "sentences = []")
    case True
    then show ?thesis by (simp add: sentence_loop_Nil)
  next
    case False
    show ?thesis
    proof (cases "model_call m (str_join ''. '' (take k sentences))")
      case (Inl e)
      then show ?thesis using False by (simp add: sentence_loop_raise)
    next
      case (Inr s)
      have "length (drop k sentences) < length sentences"
        using False less.prems by simp
      from less.hyps [OF this less.prems] show ?thesis
        using False Inr by (simp add: sentence_loop_step)
    qed
  qed
qed

text \<open>
  With segment size 0 the slice is empty and the list stays as it is: when the model
  returns on the empty text, no round of the loop is the last one.
\<close>

lemma sentence_loop_returns_only_on_Nil:
  assumes "sentence_loop m k sentences summary calls = Some y"
  shows "k = 0 \<longrightarrow> (\<exists>s0. model_call m [] = Inr s0) \<longrightarrow> sentences = []"
proof (rule sentence_loop.raw_induct
    [where P = "\<lambda>m k sentences summary calls y.
       k = 0 \<longrightarrow> (\<exists>s0. model_call m [] = Inr s0) \<longrightarrow> sentences = []", OF _ assms])
  fix sl :: "model \<Rightarrow> nat \<Rightarrow> string list \<Rightarrow> string list \<Rightarrow> string list \<Rightarrow> (string list) traced"
  fix m k sentences summary calls y
  assume IH: "\<And>m k sentences summary calls y. sl m k sentences summary calls = Some y \<Longrightarrow>
     k = 0 \<longrightarrow> (\<exists>s0. model_call m [] = Inr s0) \<longrightarrow> sentences = []"
  assume step: "(if sentences = [] then Some (Inr summary, calls)
      else
        (case model_call m (str_join ''. '' (take k sentences)) of
           Inl e \<Rightarrow> Some (Inl e, calls @ [str_join ''. '' (take k sentences)])
         | Inr s \<Rightarrow>
             sl m k (drop k sentences) (summary @ [s])
               (calls @ [str_join ''. '' (take k sentences)]))) = Some y"
  show "k = 0 \<longrightarrow> (\<exists>s0. model_call m [] = Inr s0) \<longrightarrow> sentences = []"
  proof (intro impI)
    assume k: "k = 0" and ok: "\<exists>s0. model_call m [] = Inr s0"
    then obtain s0 where s0: "model_call m [] = Inr s0" by blast
    show "sentences = []"
    proof (rule ccontr)
      assume ne: "sentences \<noteq> []"
      with step k s0 have "sl m 0 sentences (summary @ [s0]) (calls @ [[]]) = Some y"
        by simp
      from IH [OF this] ok ne show False by simp
    qed
  qed
qed

lemma sentence_loop_diverges:
  assumes "model_call m [] = Inr s0" and "sentences \<noteq> []"
  shows "sentence_loop m 0 sentences summary calls = None"
proof (cases "sentence_loop m 0 sentences summary calls")
  case None
  then show ?thesis .
next
  case (Some y)
  from sentence_loop_returns_only_on_Nil [OF this] assms show ?thesis by blast
qed

text \<open>When every slice is summarized, the loop returns the summaries in slice order.\<close>

lemma sentence_loop_all_ok:
  assumes "0 < k"
    and "\<And>seg. seg \<in> set (map (str_join ''. '') (segments k sentences)) \<Longrightarrow>
           model_call m seg = Inr (f seg)"
  shows "sentence_loop m k sentences summary calls =
           Some (Inr (summary @ map f (map (str_join ''. '') (segments k sentences))),
                 calls @ map (str_join ''. '') (segments k sentences))"
  using assms
proof (induction k sentences arbitrary: summary calls rule: segments.induct)
  case (1 k xs)
  show ?case
  proof (cases "xs = []")
    case True
    then show ?thesis by (simp add: sentence_loop_Nil segments_Nil)
  next
    case False
    have unf: "segments k xs = take k xs # segments k (drop k xs)"
      using False "1.prems"(1) by (rule segments_unfold [rotated])
    have ok: "model_call m (str_join ''. '' (take k xs)) = Inr (f (str_join ''. '' (take k xs)))"
      using "1.prems"(2) unf by simp
    have rest: "\<And>seg. seg \<in> set (map (str_join ''. '') (segments k (drop k xs))) \<Longrightarrow>
           model_call m seg = Inr (f seg)"
      using "1.prems"(2) unf by simp
    have "sentence_loop m k (drop k xs) (summary @ [f (str_join ''. '' (take k xs))])
            (calls @ [str_join ''. '' (take k xs)]) =
          Some (Inr ((summary @ [f (str_join ''. '' (take k xs))]) @
                  map f (map (str_join ''. '') (segments k (drop k xs)))),
                (calls @ [str_join ''. '' (take k xs)]) @
                  map (str_join ''. '') (segments k (drop k xs)))"
      using "1.IH" [OF _ "1.prems"(1) rest] False "1.prems"(1) by simp
    then show ?thesis
      using False ok unf by (simp add: sentence_loop_step)
  qed
qed

text \<open>Rules that evaluate the driver on a given text and handle.\<close>

lemmas driver_eval =
  abstractive_summary_def model_call_def budget_model_def paragraphs_of_def
  split_further_def chunks_def newline_def period_def
  sentence_loop_unfold sentence_loop_Nil

section \<open>Returning runs and their call traces\<close>

text \<open>An induction rule for the returning runs of the sentence loop.\<close>

lemma sentence_loop_induct [consumes 1, case_names finished raise step]:
  assumes ret: "sentence_loop m k sentences summary calls = Some y"
    and base: "\<And>summary calls. P [] summary calls (Inr summary, calls)"
    and raise: "\<And>sentences summary calls e.
        sentences \<noteq> [] \<Longrightarrow> model_call m (str_join ''. '' (take k sentences)) = Inl e \<Longrightarrow>
        P sentences summary calls (Inl e, calls @ [str_join ''. '' (take k sentences)])"
    and step: "\<And>sentences summary calls s y.
        sentences \<noteq> [] \<Longrightarrow> model_call m (str_join ''. '' (take k sentences)) = Inr s \<Longrightarrow>
        P (drop k sentences) (summary @ [s]) (calls @ [str_join ''. '' (take k sentences)]) y \<Longrightarrow>
        P sentences summary calls y"
  shows "P sentences summary calls y"
proof -
  have "m = m \<longrightarrow> k = k \<longrightarrow> P sentences summary calls y"
  proof (rule sentence_loop.raw_induct
      [where P = "\<lambda>m' k' sentences summary calls y.
         m' = m \<longrightarrow> k' = k \<longrightarrow> P sentences summary calls y", OF _ ret])
    fix sl :: "model \<Rightarrow> nat \<Rightarrow> string list \<Rightarrow> string list \<Rightarrow> string list \<Rightarrow> (string list) traced"
    fix m' k' sentences summary calls y
    assume IH: "\<And>m' k' sentences summary calls y. sl m' k' sentences summary calls = Some y \<Longrightarrow>
       m' = m \<longrightarrow> k' = k \<longrightarrow> P sentences summary calls y"
    assume body: "(if sentences = [] then Some (Inr summary, calls)
        else
          (case model_call m' (str_join ''. '' (take k' sentences)) of
             Inl e \<Rightarrow> Some (Inl e, calls @ [str_join ''. '' (take k' sentences)])
           | Inr s \<Rightarrow>
               sl m' k' (drop k' sentences) (summary @ [s])
                 (calls @ [str_join ''. '' (take k' sentences)]))) = Some y"
    show "m' = m \<longrightarrow> k' = k \<longrightarrow> P sentences summary calls y"
    proof (intro impI)
      assume eq: "m' = m" "k' = k"
      show "P sentences summary calls y"
      proof (cases "sentences = []")
        case True
        with body base show ?thesis by auto
      next
        case False
        show ?thesis
        proof (cases "model_call m (str_join ''. '' (take k sentences))")
          case (Inl e)
          with body False eq raise [OF False Inl] show ?thesis by auto
        next
          case (Inr s)
          with body False eq
          have "sl m k (drop k sentences) (summary @ [s])
                  (calls @ [str_join ''. '' (take k sentences)]) = Some y"
            by simp
          from IH [OF this] have "P (drop k sentences) (summary @ [s])
                  (calls @ [str_join ''. '' (take k sentences)]) y"
            by simp
          from step [OF False Inr this] show ?thesis .
        qed
      qed
    qed
  qed
  then show ?thesis by simp
qed

lemma trace_ok_raise:
  "list_all (handled m) calls \<Longrightarrow> model_call m x = Inl e \<Longrightarrow> trace_ok m (Inl e) (calls @ [x])"
  by (simp add: trace_ok_def)

lemma handled_Inr: "model_call m x = Inr s \<Longrightarrow> handled m x"
  by (simp add: handled_def)

lemma handled_IndexError: "model_call m x = Inl IndexError \<Longrightarrow> handled m x"
  by (simp add: handled_def)

lemma sentence_loop_trace:
  assumes "sentence_loop m k sentences summary calls = Some y"
  shows "list_all (handled m) calls \<longrightarrow> trace_ok m (fst y) (snd y)"
  using assms
proof (induction rule: sentence_loop_induct)
  case (finished summary calls)
  show ?case by (simp add: trace_ok_def)
next
  case (raise sentences summary calls e)
  then show ?case by (simp add: trace_ok_raise)
next
  case (step sentences summary calls s y)
  then show ?case by (simp add: handled_Inr)
qed




lemma split_further_trace:
  assumes "split_further m p summary calls = Some (r, calls')"
    and "list_all (handled m) calls"
  shows "trace_ok m r calls'"
  using sentence_loop_trace [OF assms(1) [unfolded split_further_def]] assms(2) by simp

lemma paragraph_loop_trace:
  "paragraph_loop m ps summary calls = Some (r, calls') \<Longrightarrow> list_all (handled m) calls \<Longrightarrow>
   trace_ok m r calls'"
proof (induction ps arbitrary: summary calls)
  case Nil
  then show ?case by (auto simp: trace_ok_def)
next
  case (Cons p ps)
  show ?case
  proof (cases "model_call m p")
    case (Inr s)
    with Cons.prems have "paragraph_loop m ps (summary @ [s]) (calls @ [p]) = Some (r, calls')"
      by simp
    moreover have "list_all (handled m) (calls @ [p])"
      using Cons.prems(2) Inr by (simp add: handled_Inr)
    ultimately show ?thesis by (rule Cons.IH)
  next
    case (Inl e)
    show ?thesis
    proof (cases "e = IndexError")
      case False
      with Inl have "paragraph_loop m (p # ps) summary calls = Some (Inl e, calls @ [p])"
        by (cases e) simp_all
      with Cons.prems have "r = Inl e" "calls' = calls @ [p]" by simp_all
      with Inl Cons.prems(2) show ?thesis by (simp add: trace_ok_raise)
    next
      case True
      have h: "list_all (handled m) (calls @ [p])"
        using Cons.prems(2) Inl True by (simp add: handled_IndexError)
      from Cons.prems(1) Inl True
      obtain r1 c1 where sf: "split_further m p summary (calls @ [p]) = Some (r1, c1)"
        by (cases "split_further m p summary (calls @ [p])") auto
      from split_further_trace [OF sf h] have t1: "trace_ok m r1 c1" .
      show ?thesis
      proof (cases r1)
        case (Inl e1)
        with Cons.prems(1) \<open>model_call m p = Inl e\<close> True sf t1 show ?thesis by simp
      next
        case (Inr summary1)
        with Cons.prems(1) \<open>model_call m p = Inl e\<close> True sf
        have "paragraph_loop m ps summary1 c1 = Some (r, calls')" by simp
        moreover from t1 Inr have "list_all (handled m) c1" by (simp add: trace_ok_def)
        ultimately show ?thesis by (rule Cons.IH)
      qed
    qed
  qed
qed


lemma abstractive_summary_trace:
  assumes "abstractive_summary text m = Some (r, calls)"
  shows "trace_ok m r calls"
proof (cases "model_call m text")
  case (Inr s)
  with assms have "r = Inr s" "calls = [text]"
    by (simp_all add: abstractive_summary_def)
  with Inr show ?thesis
    by (simp add: trace_ok_def handled_Inr)
next
  case (Inl e)
  show ?thesis
  proof (cases "e = IndexError")
    case False
    with Inl have "abstractive_summary text m = Some (Inl e, [text])"
      by (cases e) (simp_all add: abstractive_summary_def)
    with assms have "r = Inl e" "calls = [text]" by simp_all
    with Inl show ?thesis by (simp add: trace_ok_def)
  next
    case True
    with Inl have unf: "abstractive_summary text m =
        (case paragraph_loop m (paragraphs_of text) [] [text] of
           None \<Rightarrow> None
         | Some (Inl e, calls) \<Rightarrow> Some (Inl e, calls)
         | Some (Inr summary, calls) \<Rightarrow> Some (Inr (str_join [newline] summary), calls))"
      by (simp add: abstractive_summary_def)
    with assms
    obtain r1 c1 where pl: "paragraph_loop m (paragraphs_of text) [] [text] = Some (r1, c1)"
      by (cases "paragraph_loop m (paragraphs_of text) [] [text]") auto
    have "list_all (handled m) [text]"
      using Inl True by (simp add: handled_IndexError)
    from paragraph_loop_trace [OF pl this] have t1: "trace_ok m r1 c1" .
    show ?thesis
    proof (cases r1)
      case (Inl e1)
      with unf pl assms have "r = Inl e1" "calls = c1" by simp_all
      with t1 Inl show ?thesis by (simp add: trace_ok_def)
    next
      case (Inr summary1)
      with unf pl assms have "r = Inr (str_join [newline] summary1)" "calls = c1" by simp_all
      with t1 Inr show ?thesis by (simp add: trace_ok_def)
    qed
  qed
qed

lemma in_butlast_or_last: "x \<in> set xs \<Longrightarrow> x \<in> set (butlast xs) \<or> x = last xs"
  by (induction xs) auto

lemma trace_ok_other_error:
  assumes "trace_ok m r calls" and "c \<in> set calls" and "model_call m c = Inl e"
    and "e \<noteq> IndexError"
  shows "r = Inl e \<and> last calls = c"
proof -
  have nh: "\<not> handled m c" using assms(3,4) by (simp add: handled_def)
  show ?thesis
  proof (cases r)
    case (Inr v)
    with assms(1,2) nh show ?thesis by (auto simp: trace_ok_def list_all_iff)
  next
    case (Inl e')
    with assms(1) have ne: "calls \<noteq> []" and bl: "list_all (handled m) (butlast calls)"
      and la: "model_call m (last calls) = Inl e'"
      by (simp_all add: trace_ok_def)
    from assms(2) have "c \<in> set (butlast calls) \<or> c = last calls"
      by (rule in_butlast_or_last)
    with bl nh have "c = last calls" by (auto simp: list_all_iff)
    with la assms(3) Inl show ?thesis by simp
  qed
qed

section \<open>The whole-document attempt\<close>

text \<open>
  C7. When the model call on the whole document succeeds, \<open>abstractive_summary\<close> returns
  the text of that call unchanged, and the document is the only text it has submitted to
  the model: one call, no splitting.
\<close>

theorem whole_document_single_call:
  assumes "model_call m text = Inr s"
  shows "abstractive_summary text m = Some (Inr s, [text])"
  using assms by (simp add: abstractive_summary_def)

theorem whole_document_single_call_witness:
  "model_call (budget_model 50) ''Sentence one. Sentence two. Sentence three.'' =
     Inr ''Sentence one. Sentence two. Sentence three.'' \<and>
   abstractive_summary ''Sentence one. Sentence two. Sentence three.'' (budget_model 50) =
     Some (Inr ''Sentence one. Sentence two. Sentence three.'',
           [''Sentence one. Sentence two. Sentence three.''])"
proof -
  have h: "model_call (budget_model 50) ''Sentence one. Sentence two. Sentence three.'' =
     Inr ''Sentence one. Sentence two. Sentence three.''"
    by (simp add: model_call_def budget_model_def)
  from h whole_document_single_call [OF h] show ?thesis by simp
qed

section \<open>The paragraph-level retry\<close>

lemma paragraph_loop_all_ok:
  assumes "\<And>p. p \<in> set ps \<Longrightarrow> model_call m p = Inr (f p)"
  shows "paragraph_loop m ps summary calls = Some (Inr (summary @ map f ps), calls @ ps)"
  using assms by (induction ps arbitrary: summary calls) simp_all

text \<open>
  C1. When the call on the whole document raises \<open>IndexError\<close> and the call on each
  non-empty fragment of the document between newline characters succeeds with summary
  \<open>f p\<close>, \<open>abstractive_summary\<close> returns the summaries of those fragments, in their order
  in the document, joined by newlines; the model has been called on the document and then
  once on each non-empty fragment, in order. Empty fragments (a blank line gives one) are
  dropped.
\<close>

theorem paragraph_level_retry:
  assumes "model_call m text = Inl IndexError"
    and "\<forall>p \<in> set (filter (\<lambda>p. p \<noteq> []) (str_split newline text)). model_call m p = Inr (f p)"
  shows "abstractive_summary text m =
           Some (Inr (str_join [newline]
                   (map f (filter (\<lambda>p. p \<noteq> []) (str_split newline text)))),
                 text # filter (\<lambda>p. p \<noteq> []) (str_split newline text))"
proof -
  have "paragraph_loop m (paragraphs_of text) [] [text] =
          Some (Inr ([] @ map f (paragraphs_of text)), [text] @ paragraphs_of text)"
    using assms(2) by (intro paragraph_loop_all_ok) (simp add: paragraphs_of_def)
  then show ?thesis
    using assms(1) by (simp add: abstractive_summary_def paragraphs_of_def)
qed

theorem paragraph_level_retry_witness:
  "model_call (budget_model 10) (''Para A'' @ [newline, newline] @ ''Para B'') = Inl IndexError \<and>
   filter (\<lambda>p. p \<noteq> []) (str_split newline (''Para A'' @ [newline, newline] @ ''Para B'')) =
     [''Para A'', ''Para B''] \<and>
   model_call (budget_model 10) ''Para A'' = Inr ''Para A'' \<and>
   model_call (budget_model 10) ''Para B'' = Inr ''Para B'' \<and>
   abstractive_summary (''Para A'' @ [newline, newline] @ ''Para B'') (budget_model 10) =
     Some (Inr (''Para A'' @ [newline] @ ''Para B''),
           [''Para A'' @ [newline, newline] @ ''Para B'', ''Para A'', ''Para B''])"
  using paragraph_level_retry
    [of "budget_model 10" "''Para A'' @ [newline, newline] @ ''Para B''" "\<lambda>p. p"]
  by (simp add: model_call_def budget_model_def newline_def)

section \<open>The sentence-chunk fallback\<close>

text \<open>
  A paragraph with an even number \<open>2 * k\<close> of period-separated units is cut into two
  segments of \<open>k\<close> units; one with an odd number \<open>2 * k + 1\<close> of them into three, of \<open>k\<close>,
  \<open>k\<close> and one unit.
\<close>

lemma split_further_even:
  assumes len: "length (str_split period p) = 2 * k" and k: "0 < k"
    and s1: "model_call m (str_join ''. '' (take k (str_split period p))) = Inr s1"
    and s2: "model_call m (str_join ''. '' (drop k (str_split period p))) = Inr s2"
  shows "split_further m p summary calls =
           Some (Inr (summary @ [s1, s2]),
                 calls @ [str_join ''. '' (take k (str_split period p)),
                          str_join ''. '' (drop k (str_split period p))])"
proof -
  let ?S = "str_split period p"
  have ne1: "?S \<noteq> []" by (rule str_split_not_Nil)
  have ne2: "drop k ?S \<noteq> []" using len k by simp
  have t2: "take k (drop k ?S) = drop k ?S" using len by simp
  have d2: "drop (k + k) ?S = []" using len by simp
  have "sentence_loop m k ?S summary calls =
        sentence_loop m k (drop k ?S) (summary @ [s1]) (calls @ [str_join ''. '' (take k ?S)])"
    using ne1 s1 by (rule sentence_loop_step)
  also have "\<dots> = sentence_loop m k (drop k (drop k ?S)) ((summary @ [s1]) @ [s2])
        ((calls @ [str_join ''. '' (take k ?S)]) @ [str_join ''. '' (take k (drop k ?S))])"
    using ne2 s2 t2 by (intro sentence_loop_step) simp_all
  also have "\<dots> = Some (Inr (summary @ [s1, s2]),
        calls @ [str_join ''. '' (take k ?S), str_join ''. '' (drop k ?S)])"
    by (simp add: d2 t2 sentence_loop_Nil)
  finally show ?thesis using len by (simp add: split_further_def chunks_def)
qed

lemma split_further_odd:
  assumes len: "length (str_split period p) = 2 * k + 1" and k: "0 < k"
    and s1: "model_call m (str_join ''. '' (take k (str_split period p))) = Inr s1"
    and s2: "model_call m (str_join ''. '' (take k (drop k (str_split period p)))) = Inr s2"
    and s3: "model_call m (str_join ''. '' (drop (2 * k) (str_split period p))) = Inr s3"
  shows "split_further m p summary calls =
           Some (Inr (summary @ [s1, s2, s3]),
                 calls @ [str_join ''. '' (take k (str_split period p)),
                          str_join ''. '' (take k (drop k (str_split period p))),
                          str_join ''. '' (drop (2 * k) (str_split period p))])"
proof -
  let ?S = "str_split period p"
  have ne1: "?S \<noteq> []" by (rule str_split_not_Nil)
  have ne2: "drop k ?S \<noteq> []" using len k by simp
  have dd: "drop k (drop k ?S) = drop (2 * k) ?S" by (simp add: mult_2)
  have ne3: "drop (2 * k) ?S \<noteq> []" using len by simp
  have t3: "take k (drop (2 * k) ?S) = drop (2 * k) ?S" using len k by simp
  have d3: "drop (3 * k) ?S = []" using len k by simp
  have "sentence_loop m k ?S summary calls =
        sentence_loop m k (drop k ?S) (summary @ [s1]) (calls @ [str_join ''. '' (take k ?S)])"
    using ne1 s1 by (rule sentence_loop_step)
  also have "\<dots> = sentence_loop m k (drop (2 * k) ?S) ((summary @ [s1]) @ [s2])
        ((calls @ [str_join ''. '' (take k ?S)]) @ [str_join ''. '' (take k (drop k ?S))])"
    using sentence_loop_step [OF ne2 s2] by (simp only: dd)
  also have "\<dots> = sentence_loop m k (drop k (drop (2 * k) ?S)) (((summary @ [s1]) @ [s2]) @ [s3])
        (((calls @ [str_join ''. '' (take k ?S)]) @ [str_join ''. '' (take k (drop k ?S))]) @
           [str_join ''. '' (take k (drop (2 * k) ?S))])"
    using ne3 s3 t3 by (intro sentence_loop_step) simp_all
  also have "\<dots> = Some (Inr (summary @ [s1, s2, s3]),
        calls @ [str_join ''. '' (take k ?S), str_join ''. '' (take k (drop k ?S)),
                 str_join ''. '' (drop (2 * k) ?S)])"
    by (simp add: d3 t3 sentence_loop_Nil)
  finally show ?thesis using len by (simp add: split_further_def chunks_def)
qed

text \<open>
  C2. The paragraph \<^verbatim>\<open>a.b.c\<close> has three sentence units and exceeds a budget of four
  characters. The driver does not cut it into the two segments \<^verbatim>\<open>a\<close> and \<^verbatim>\<open>b. c\<close>: the
  segment size is 1, the loop takes three slices, and the model is called on \<^verbatim>\<open>a\<close>,
  \<^verbatim>\<open>b\<close> and \<^verbatim>\<open>c\<close>.
\<close>

theorem three_units_three_segments:
  "abstractive_summary ''a.b.c'' (budget_model 4) =
     Some (Inr (''a'' @ [newline] @ ''b'' @ [newline] @ ''c''),
           [''a.b.c'', ''a.b.c'', ''a'', ''b'', ''c''])"
  by (simp add: driver_eval)

text \<open>A paragraph that contains a period has a positive segment size, and its loop returns.\<close>

lemma split_further_total:
  assumes "period \<in> set p"
  shows "\<exists>r. split_further m p summary calls = Some r"
  unfolding split_further_def chunks_def
  by (rule sentence_loop_total) (rule segment_size_pos [OF assms])

text \<open>
  C3. The paragraph \<^verbatim>\<open>abcd\<close> has no period and exceeds a budget of three characters. Its
  split has one unit, the segment size is 0, every round submits the empty text, which the
  model summarizes, and leaves the sentence list as it is: \<open>abstractive_summary\<close> does not
  return.
\<close>

theorem period_free_paragraph_never_returns:
  "abstractive_summary ''abcd'' (budget_model 3) = None"
proof -
  have "sentence_loop (budget_model 3) 0 [''abcd''] [] [''abcd'', ''abcd''] = None"
    by (rule sentence_loop_diverges [where ?s0.0 = "[]"])
       (simp_all add: model_call_def budget_model_def)
  then show ?thesis
    by (simp add: abstractive_summary_def model_call_def budget_model_def paragraphs_of_def
        split_further_def chunks_def newline_def period_def)
qed

text \<open>
  C10. Splitting a paragraph on the period keeps every fragment, empty ones included: the
  split has one fragment more than the paragraph has periods, the fragments joined by
  periods are the paragraph again, and a paragraph that ends in a period has an empty last
  fragment. The segment size is half that number of fragments, rounded down. When the
  paragraph contains a period and the model summarizes every segment, the fallback submits
  the slices of the unfiltered fragment list, each joined with \<^verbatim>\<open>". "\<close>, and the slices
  together are all the fragments. The paragraphs of a document, in contrast, are never
  empty.
\<close>

theorem sentence_fragments_kept:
  "length (str_split period p) = Suc (count_list p period) \<and>
   str_join [period] (str_split period p) = p \<and>
   last (str_split period (q @ [period])) = [] \<and>
   [] \<notin> set (paragraphs_of text) \<and>
   (period \<in> set p \<and>
    (\<forall>seg \<in> set (segments (Suc (count_list p period) div 2) (str_split period p)).
       model_call m (str_join ''. '' seg) = Inr (f (str_join ''. '' seg))) \<longrightarrow>
      concat (segments (Suc (count_list p period) div 2) (str_split period p)) =
        str_split period p \<and>
      split_further m p summary calls =
        Some (Inr (summary @
                map f (map (str_join ''. '')
                  (segments (Suc (count_list p period) div 2) (str_split period p)))),
              calls @ map (str_join ''. '')
                (segments (Suc (count_list p period) div 2) (str_split period p))))"
proof (intro conjI impI)
  show "length (str_split period p) = Suc (count_list p period)"
    by (rule length_str_split)
  show "str_join [period] (str_split period p) = p"
    by (rule str_join_str_split)
  show "last (str_split period (q @ [period])) = []"
    by (simp add: str_split_trailing)
  show "[] \<notin> set (paragraphs_of text)"
    by (rule paragraphs_of_nonempty)
next
  assume h: "period \<in> set p \<and>
    (\<forall>seg \<in> set (segments (Suc (count_list p period) div 2) (str_split period p)).
       model_call m (str_join ''. '' seg) = Inr (f (str_join ''. '' seg)))"
  let ?k = "Suc (count_list p period) div 2"
  have k: "0 < ?k"
    using segment_size_pos [of period p] h by (simp add: length_str_split)
  show "concat (segments ?k (str_split period p)) = str_split period p"
    using k by (rule concat_segments)
  have "sentence_loop m ?k (str_split period p) summary calls =
        Some (Inr (summary @ map f (map (str_join ''. '') (segments ?k (str_split period p)))),
              calls @ map (str_join ''. '') (segments ?k (str_split period p)))"
    using k h by (intro sentence_loop_all_ok) auto
  then show "split_further m p summary calls =
        Some (Inr (summary @ map f (map (str_join ''. '') (segments ?k (str_split period p)))),
              calls @ map (str_join ''. '') (segments ?k (str_split period p)))"
    by (simp add: split_further_def chunks_def length_str_split)
qed

theorem sentence_fragments_kept_witness:
  "str_split period ''a.b.c.'' = [''a'', ''b'', ''c'', ''''] \<and>
   period \<in> set ''a.b.c.'' \<and>
   segments (Suc (count_list ''a.b.c.'' period) div 2) (str_split period ''a.b.c.'') =
     [[''a'', ''b''], [''c'', '''']] \<and>
   model_call (budget_model 5) ''a. b'' = Inr ''a. b'' \<and>
   model_call (budget_model 5) ''c. '' = Inr ''c. '' \<and>
   split_further (budget_model 5) ''a.b.c.'' [] [''a.b.c.'', ''a.b.c.''] =
     Some (Inr [''a. b'', ''c. ''], [''a.b.c.'', ''a.b.c.'', ''a. b'', ''c. '']) \<and>
   abstractive_summary ''a.b.c.'' (budget_model 5) =
     Some (Inr (''a. b'' @ [newline] @ ''c. ''), [''a.b.c.'', ''a.b.c.'', ''a. b'', ''c. '']) \<and>
   paragraphs_of (''a'' @ [newline, newline] @ ''b'') = [''a'', ''b'']"
  using sentence_fragments_kept
    [of "''a.b.c.''" "''a.b.c''" "''a'' @ [newline, newline] @ ''b''" "budget_model 5"
        "\<lambda>s. s" "[]" "[''a.b.c.'', ''a.b.c.'']"]
  by (simp add: driver_eval)

section \<open>Which failures reach the caller\<close>



text \<open>
  C8. An exception other than \<open>IndexError\<close> is not caught: raised by the call on the whole
  document or on a paragraph, it ends the run with that exception; raised by the call on
  a sentence segment, so does every exception. In every run that returns or raises, a
  call that raised an exception other than \<open>IndexError\<close> is the last call of the run, and
  the run raised that exception.
\<close>

theorem other_failures_propagate:
  "(model_call m doc = Inl e \<and> e \<noteq> IndexError \<longrightarrow>
      abstractive_summary doc m = Some (Inl e, [doc])) \<and>
   (model_call m p = Inl e \<and> e \<noteq> IndexError \<longrightarrow>
      paragraph_loop m (p # ps) summary calls0 = Some (Inl e, calls0 @ [p])) \<and>
   (sentences \<noteq> [] \<and> model_call m (str_join ''. '' (take k sentences)) = Inl e \<longrightarrow>
      sentence_loop m k sentences summary calls0 =
        Some (Inl e, calls0 @ [str_join ''. '' (take k sentences)])) \<and>
   (abstractive_summary text m = Some (r, calls) \<and> c \<in> set calls \<and>
    model_call m c = Inl e \<and> e \<noteq> IndexError \<longrightarrow>
      r = Inl e \<and> last calls = c)"
proof (intro conjI impI)
  assume "model_call m doc = Inl e \<and> e \<noteq> IndexError"
  then show "abstractive_summary doc m = Some (Inl e, [doc])"
    by (cases e) (simp_all add: abstractive_summary_def)
next
  assume "model_call m p = Inl e \<and> e \<noteq> IndexError"
  then show "paragraph_loop m (p # ps) summary calls0 = Some (Inl e, calls0 @ [p])"
    by (cases e) simp_all
next
  assume "sentences \<noteq> [] \<and> model_call m (str_join ''. '' (take k sentences)) = Inl e"
  then show "sentence_loop m k sentences summary calls0 =
        Some (Inl e, calls0 @ [str_join ''. '' (take k sentences)])"
    by (simp add: sentence_loop_raise)
next
  assume h: "abstractive_summary text m = Some (r, calls) \<and> c \<in> set calls \<and>
    model_call m c = Inl e \<and> e \<noteq> IndexError"
  then have "abstractive_summary text m = Some (r, calls)" by simp
  then have "trace_ok m r calls" by (rule abstractive_summary_trace)
  moreover from h have "c \<in> set calls" "model_call m c = Inl e" "e \<noteq> IndexError"
    by simp_all
  ultimately have "r = Inl e \<and> last calls = c" by (rule trace_ok_other_error)
  then show "r = Inl e" and "last calls = c" by simp_all
qed

theorem other_failures_propagate_witness:
  "model_call (\<lambda>x. if x = ''bad'' then Inl (OtherError ''ValueError'') else budget_model 3 x)
     ''bad'' = Inl (OtherError ''ValueError'') \<and>
   abstractive_summary ''bad''
     (\<lambda>x. if x = ''bad'' then Inl (OtherError ''ValueError'') else budget_model 3 x) =
     Some (Inl (OtherError ''ValueError''), [''bad'']) \<and>
   abstractive_summary (''ab.c'' @ [newline] @ ''bad'')
     (\<lambda>x. if x = ''bad'' then Inl (OtherError ''ValueError'') else budget_model 3 x) =
     Some (Inl (OtherError ''ValueError''),
           [''ab.c'' @ [newline] @ ''bad'', ''ab.c'', ''ab'', ''c'', ''bad''])"
  using other_failures_propagate
    [of "\<lambda>x. if x = ''bad'' then Inl (OtherError ''ValueError'') else budget_model 3 x"
        "''bad''" "OtherError ''ValueError''" "''bad''" "[]" "[]" "[]" "[''bad'']" 1
        "''ab.c'' @ [newline] @ ''bad''" "Inl (OtherError ''ValueError'')"
        "[''ab.c'' @ [newline] @ ''bad'', ''ab.c'', ''ab'', ''c'', ''bad'']" "''bad''"]
  by (simp add: driver_eval)

section \<open>The empty document\<close>

text \<open>
  C9, as amended. On the empty document \<open>abstractive_summary\<close> calls the model once, on the
  empty text. When the call succeeds, its summary is returned as it is; when it raises
  \<open>IndexError\<close>, no paragraph is left after the split and the empty summary is returned;
  any other exception reaches the caller.
\<close>

theorem empty_document:
  "abstractive_summary [] m =
     Some (case model_call m [] of
             Inr s \<Rightarrow> Inr s
           | Inl IndexError \<Rightarrow> Inr []
           | Inl e \<Rightarrow> Inl e,
           [[]])"
  by (simp add: abstractive_summary_def paragraphs_of_def split: sum.splits py_error.splits)

text \<open>
  C9 as stated fails: a handle that raises another exception on the empty text makes the
  driver raise, and a handle that returns a text for the empty input makes the summary of
  the empty document non-empty.
\<close>

theorem empty_document_counterexample:
  "abstractive_summary [] (raising_model (OtherError ''ValueError'')) =
     Some (Inl (OtherError ''ValueError''), [[]]) \<and>
   abstractive_summary [] (constant_model ''CNN.'') = Some (Inr ''CNN.'', [[]])"
  by (simp add: abstractive_summary_def model_call_def raising_model_def constant_model_def)

section \<open>Identity of adapters\<close>

text \<open>The method written in the class body returns the name, whatever the other fields.\<close>

lemma hash_method_returns_name:
  "SummarizationModel_hash
     \<lparr>name = n, load = l, summarize = s, display_name = d, description = e\<rparr> = PyStr n"
  by (simp add: SummarizationModel_hash_def)

text \<open>
  C5. No adapter has a hash keyed on its name. The decorator \<^verbatim>\<open>@attr.s()\<close>, called with no
  arguments, makes the class unhashable, so \<^verbatim>\<open>hash(self)\<close> raises \<^verbatim>\<open>TypeError\<close> for every
  adapter; and the method written in the class body, were it kept, returns a \<^verbatim>\<open>str\<close>, on
  which \<^verbatim>\<open>hash\<close> raises \<^verbatim>\<open>TypeError\<close> as well.
\<close>

theorem adapter_hash_raises:
  "attr_s_hash_slot attr_s_defaults True = Unhashable \<and>
   py_hash tuple_hash self = Inl (OtherError ''TypeError'') \<and>
   hash_protocol (SummarizationModel_hash self) = Inl (OtherError ''TypeError'')"
  by (simp add: py_hash_def attr_s_hash_slot_def attr_s_defaults_def hash_protocol_def
      SummarizationModel_hash_def)

text \<open>
  With \<^verbatim>\<open>hash=False\<close> or \<^verbatim>\<open>eq=False\<close> the decorator would have kept the method of the
  class.
\<close>

lemma attr_s_keeps_hash:
  "attr_s_hash_slot (attr_s_defaults\<lparr>arg_hash := Some False\<rparr>) True = Kept"
  "attr_s_hash_slot (attr_s_defaults\<lparr>arg_eq := False\<rparr>) True = Kept"
  "attr_s_hash_slot (attr_s_defaults\<lparr>arg_auto_detect := True\<rparr>) True = Kept"
  by (simp_all add: attr_s_hash_slot_def attr_s_defaults_def)

text \<open>
  C4, as amended. Two adapters constructed with the same name compare equal exactly when
  their \<open>load\<close>, \<open>summarize\<close>, \<open>display_name\<close> and \<open>description\<close> are equal too.
\<close>

theorem same_name_equal_iff_fields_equal:
  "SummarizationModel_eq
     \<lparr>name = n, load = l1, summarize = s1, display_name = d1, description = e1\<rparr>
     \<lparr>name = n, load = l2, summarize = s2, display_name = d2, description = e2\<rparr> \<longleftrightarrow>
   l1 = l2 \<and> s1 = s2 \<and> d1 = d2 \<and> e1 = e2"
  by (simp add: SummarizationModel_eq_def)

text \<open>
  C4 as stated fails: two adapters with the name \<^verbatim>\<open>abstractive\<close> and different display
  names do not compare equal.
\<close>

theorem same_name_not_equal_counterexample:
  "\<not> SummarizationModel_eq
     \<lparr>name = ''abstractive'', load = ''load_abstractive_model'',
      summarize = ''abstractive_summary'', display_name = ''Neural Abstractive'',
      description = ''HuggingFace Summarization Pipeline''\<rparr>
     \<lparr>name = ''abstractive'', load = ''load_abstractive_model'',
      summarize = ''abstractive_summary'', display_name = ''Abstractive'',
      description = ''HuggingFace Summarization Pipeline''\<rparr>"
  by (simp add: SummarizationModel_eq_def)

end
